theory Spec2Isabelle
  imports Complex_Main "HOL-Library.AList" "HOL-Library.Log_Nat"
begin

section \<open>Python values used by \<open>tplr/chain.py\<close>\<close>

text \<open>
  A Python \<open>str\<close> is a sequence of Unicode code points and \<open>len\<close> counts code points,
  so a \<open>str\<close> is a list of code points here; \<open>bytes\<close> is a list of byte values.
  \<open>str\<close> turns an ASCII literal into such a list.
\<close>

type_synonym pystr = "nat list"
type_synonym pybytes = "nat list"

definition str :: "string \<Rightarrow> pystr" where
  "str s = map of_char s"

text \<open>The exceptions that the modelled paths of \<open>ChainManager\<close> raise or catch.\<close>

datatype error =
    LedgerError
  | ValueError
  | UnicodeDecodeError
  | InvalidLength
  | RuntimeError
  | ZeroDivisionError
  | OverflowError

text \<open>
  A finite double is \<open>m * 2^s\<close> for a mantissa \<open>m\<close> and an exponent \<open>s\<close>; the pair
  \<open>(m, s)\<close> stands for it.
\<close>

type_synonym double = "int \<times> int"

text \<open>
  The integer nearest to \<open>n / d\<close> for \<open>d > 0\<close>, a tie going to the even neighbour, and
  the \<open>e\<close> with \<open>2^e \<le> n / d < 2^(e + 1)\<close> for positive \<open>n\<close> and \<open>d\<close>.
\<close>

definition round_half_even :: "int \<Rightarrow> int \<Rightarrow> int" where
  "round_half_even n d =
     (let q = n div d; r = n mod d in
      if 2 * r < d then q
      else if d < 2 * r then q + 1
      else if even q then q else q + 1)"

definition floor_log2 :: "int \<Rightarrow> int \<Rightarrow> int" where
  "floor_log2 n d = (if d \<le> n then bitlen (n div d) - 1 else - bitlen ((d - 1) div n))"

text \<open>
  \<open>a / b\<close> on two Python ints: \<open>ZeroDivisionError\<close> for \<open>b = 0\<close>, otherwise the double
  nearest to the exact quotient (ties to even, 53 bits of mantissa, subnormal below
  \<open>2^-1022\<close>), and \<open>OverflowError\<close> when that double would not be finite.
\<close>

definition true_divide :: "int \<Rightarrow> int \<Rightarrow> error + double" where
  "true_divide a b =
     (if b = 0 then Inl ZeroDivisionError
      else if a = 0 then Inr (0, 0)
      else
        (let n = \<bar>a\<bar>; d = \<bar>b\<bar>;
             e = floor_log2 n d;
             s = max e (- 1022) - 52;
             m = (if 0 \<le> s then round_half_even n (d * 2 ^ nat s)
                  else round_half_even (n * 2 ^ nat (- s)) d)
         in if 1024 \<le> e \<or> (e = 1023 \<and> m = 2 ^ 53) then Inl OverflowError
            else Inr (sgn a * sgn b * m, s)))"

text \<open>\<open>int(x)\<close> on a double truncates towards zero; \<open>int_truediv a b\<close> is \<open>int(a / b)\<close>.\<close>

definition py_int :: "double \<Rightarrow> int" where
  "py_int x =
     (case x of (m, s) \<Rightarrow>
        if 0 \<le> s then m * 2 ^ nat s else sgn m * (\<bar>m\<bar> div 2 ^ nat (- s)))"

definition int_truediv :: "int \<Rightarrow> int \<Rightarrow> error + int" where
  "int_truediv a b = (case true_divide a b of Inl e \<Rightarrow> Inl e | Inr x \<Rightarrow> Inr (py_int x))"

section \<open>State of the chain manager\<close>

text \<open>
  Modelled from the spec: the class \<open>Bucket\<close> of \<open>tplr/schemas.py\<close>, which
  \<open>chain.py\<close> imports and which is not part of the sources at hand. The spec describes
  a bucket record as an immutable value of four text fields, compared field by field, on
  whose character content no validation is performed; so the constructor \<open>Bucket_new\<close>
  accepts every four strings. Its result is still a sum, as the callers catch
  \<open>ValidationError\<close> around it.
\<close>

record Bucket =
  name :: pystr
  account_id :: pystr
  access_key_id :: pystr
  secret_access_key :: pystr

definition Bucket_new :: "pystr \<Rightarrow> pystr \<Rightarrow> pystr \<Rightarrow> pystr \<Rightarrow> error + Bucket" where
  "Bucket_new n a k s =
     Inr \<lparr>name = n, account_id = a, access_key_id = k, secret_access_key = s\<rparr>"

text \<open>
  The membership view (\<open>self.metagraph\<close>): the hotkeys and the UIDs, position by
  position, and the stake vector \<open>S\<close>. Stakes are floating point numbers that are only
  compared with a constant, so they are reals here (no NaN, no infinity).
\<close>

record metagraph =
  hotkeys :: "string list"
  uids :: "nat list"
  S :: "real list"

record hparams =
  blocks_per_window :: int

text \<open>The fields of \<open>ChainManager\<close> that the block listener and the refresh write.\<close>

record chain_manager =
  current_block :: int
  current_window :: int
  commitments :: "(nat \<times> Bucket) list"
  peers :: "nat list"

section \<open>The ledger\<close>

text \<open>
  The ledger client (\<open>bt.subtensor\<close>) is an external service. What the reconciliation
  uses of it is modelled by two fields: \<open>store uid\<close> is the answer of
  \<open>subtensor.get_commitment(netuid, uid)\<close>, a payload or an exception (the ledger is
  unreachable, or holds nothing for the slot); \<open>submitted\<close> is the log of the calls of
  \<open>subtensor.commit\<close>, each with the signing hotkey and the payload. A wallet is
  represented by its hotkey address.
\<close>

record ledger =
  store :: "nat \<Rightarrow> error + pystr"
  submitted :: "(string \<times> pystr) list"

text \<open>\<open>xs.index(x)\<close>: the first position of \<open>x\<close>, \<open>ValueError\<close> when there is none.\<close>

fun list_index :: "'a list \<Rightarrow> 'a \<Rightarrow> error + nat" where
  "list_index [] x = Inl ValueError"
| "list_index (y # ys) x =
     (if y = x then Inr 0
      else case list_index ys x of Inl e \<Rightarrow> Inl e | Inr i \<Rightarrow> Inr (Suc i))"

text \<open>
  \<open>subtensor.commit(wallet, netuid, data)\<close> on a ledger that nobody else writes: the call
  is logged, and the payload replaces what the ledger holds for the slot of the signing
  hotkey; a hotkey without a slot changes no stored payload.
\<close>

definition subtensor_commit :: "metagraph \<Rightarrow> string \<Rightarrow> pystr \<Rightarrow> ledger \<Rightarrow> ledger" where
  "subtensor_commit mg hotkey data l =
     l\<lparr>store := (case list_index (hotkeys mg) hotkey of
                    Inl e \<Rightarrow> store l
                  | Inr uid \<Rightarrow> (store l)(uid := Inr data)),
       submitted := submitted l @ [(hotkey, data)]\<rparr>"

section \<open>Publishing and reading one commitment\<close>

definition commit :: "metagraph \<Rightarrow> string \<Rightarrow> Bucket \<Rightarrow> ledger \<Rightarrow> ledger" where
  "commit mg hotkey bucket l =
     (let concatenated = account_id bucket @ access_key_id bucket @ secret_access_key bucket
      in subtensor_commit mg hotkey concatenated l)"

text \<open>
  \<open>get_commitment\<close>: an exception of the ledger is raised again as \<open>Exception\<close>
  (\<open>LedgerError\<close> here), a payload whose length is not 128 raises \<open>ValueError\<close>, and
  the slices \<open>[:32]\<close>, \<open>[32:64]\<close> and \<open>[64:]\<close> become the fields.
\<close>

definition get_commitment :: "ledger \<Rightarrow> nat \<Rightarrow> error + Bucket" where
  "get_commitment l uid =
     (case store l uid of
        Inl e \<Rightarrow> Inl LedgerError
      | Inr concatenated \<Rightarrow>
          if length concatenated \<noteq> 128 then Inl ValueError
          else (case Bucket_new (take 32 concatenated) (take 32 concatenated)
                       (take 32 (drop 32 concatenated)) (drop 64 concatenated) of
                  Inl e \<Rightarrow> Inl ValueError
                | Inr bucket \<Rightarrow> Inr bucket))"

text \<open>
  \<open>try_commit\<close>: everything raised inside the \<open>try\<close> block (the hotkey is not in the
  metagraph, the commitment cannot be read or parsed, the two concatenations differ)
  ends in the \<open>except\<close> branch, which commits.
\<close>

definition try_commit :: "metagraph \<Rightarrow> string \<Rightarrow> Bucket \<Rightarrow> ledger \<Rightarrow> ledger" where
  "try_commit mg hotkey bucket l =
     (case (case list_index (hotkeys mg) hotkey of
              Inl e \<Rightarrow> Inl e
            | Inr uid \<Rightarrow>
                (case get_commitment l uid of
                   Inl e \<Rightarrow> Inl e
                 | Inr commitment \<Rightarrow>
                     (let commitment_str = name commitment @ access_key_id commitment
                                             @ secret_access_key commitment;
                          current_str = name bucket @ access_key_id bucket
                                          @ secret_access_key bucket
                      in if current_str \<noteq> commitment_str then Inl ValueError else Inr ())))
      of Inl e \<Rightarrow> commit mg hotkey bucket l
       | Inr u \<Rightarrow> l)"

section \<open>Block tracking\<close>

text \<open>
  The \<open>handler\<close> of \<open>block_listener\<close>. It assigns \<open>current_block\<close> first, so the
  assignment survives when the division raises; the result is the exception, if any,
  and the state the handler leaves.
\<close>

definition handler :: "hparams \<Rightarrow> int \<Rightarrow> chain_manager \<Rightarrow> error option \<times> chain_manager" where
  "handler hp number st =
     (let st1 = st\<lparr>current_block := number\<rparr> in
      case int_truediv (current_block st1) (blocks_per_window hp) of
        Inl e \<Rightarrow> (Some e, st1)
      | Inr w \<Rightarrow>
          if w \<noteq> current_window st1 then
            (case int_truediv (current_block st1) (blocks_per_window hp) of
               Inl e \<Rightarrow> (Some e, st1)
             | Inr w' \<Rightarrow> (None, st1\<lparr>current_window := w'\<rparr>))
          else (None, st1))"

section \<open>Decoding a wire payload\<close>

text \<open>
  \<open>bytes.fromhex\<close> on a \<open>str\<close>: ASCII whitespace is skipped in front of a byte, a byte
  is two hexadecimal digits next to each other, and anything else raises
  \<open>ValueError\<close>.
\<close>

definition is_ascii_space :: "nat \<Rightarrow> bool" where
  "is_ascii_space c \<longleftrightarrow> c = 32 \<or> (9 \<le> c \<and> c \<le> 13)"

definition hex_digit :: "nat \<Rightarrow> nat option" where
  "hex_digit c =
     (if 48 \<le> c \<and> c \<le> 57 then Some (c - 48)
      else if 97 \<le> c \<and> c \<le> 102 then Some (c - 87)
      else if 65 \<le> c \<and> c \<le> 70 then Some (c - 55)
      else None)"

fun fromhex :: "pystr \<Rightarrow> error + pybytes" where
  "fromhex [] = Inr []"
| "fromhex (c # cs) =
     (if is_ascii_space c then fromhex cs
      else case hex_digit c of
        None \<Rightarrow> Inl ValueError
      | Some hi \<Rightarrow>
          (case cs of
             [] \<Rightarrow> Inl ValueError
           | c' # cs' \<Rightarrow>
               (case hex_digit c' of
                  None \<Rightarrow> Inl ValueError
                | Some lo \<Rightarrow>
                    (case fromhex cs' of
                       Inl e \<Rightarrow> Inl e
                     | Inr bs \<Rightarrow> Inr ((hi * 16 + lo) # bs)))))"

text \<open>
  \<open>bytes.decode("utf-8")\<close> with strict error handling: one code point per well-formed
  sequence of one to four bytes; overlong forms, surrogates, code points above
  \<open>0x10FFFF\<close>, stray continuation bytes and truncated sequences raise
  \<open>UnicodeDecodeError\<close>.
\<close>

definition continuation :: "nat \<Rightarrow> bool" where
  "continuation b \<longleftrightarrow> 128 \<le> b \<and> b \<le> 191"

definition decoded :: "nat \<Rightarrow> error + pystr \<Rightarrow> error + pystr" where
  "decoded cp rest = (case rest of Inl e \<Rightarrow> Inl e | Inr cps \<Rightarrow> Inr (cp # cps))"

fun utf8_decode :: "pybytes \<Rightarrow> error + pystr" where
  "utf8_decode [] = Inr []"
| "utf8_decode (b0 # bs) =
     (if b0 < 128 then decoded b0 (utf8_decode bs)
      else if 194 \<le> b0 \<and> b0 \<le> 223 then
        (case bs of
           b1 # bs1 \<Rightarrow>
             if continuation b1
             then decoded ((b0 - 192) * 64 + (b1 - 128)) (utf8_decode bs1)
             else Inl UnicodeDecodeError
         | _ \<Rightarrow> Inl UnicodeDecodeError)
      else if 224 \<le> b0 \<and> b0 \<le> 239 then
        (case bs of
           b1 # b2 # bs2 \<Rightarrow>
             if (if b0 = 224 then 160 \<le> b1 \<and> b1 \<le> 191
                 else if b0 = 237 then 128 \<le> b1 \<and> b1 \<le> 159
                 else continuation b1) \<and> continuation b2
             then decoded ((b0 - 224) * 4096 + (b1 - 128) * 64 + (b2 - 128)) (utf8_decode bs2)
             else Inl UnicodeDecodeError
         | _ \<Rightarrow> Inl UnicodeDecodeError)
      else if 240 \<le> b0 \<and> b0 \<le> 244 then
        (case bs of
           b1 # b2 # b3 # bs3 \<Rightarrow>
             if (if b0 = 240 then 144 \<le> b1 \<and> b1 \<le> 191
                 else if b0 = 244 then 128 \<le> b1 \<and> b1 \<le> 143
                 else continuation b1) \<and> continuation b2 \<and> continuation b3
             then decoded ((b0 - 240) * 262144 + (b1 - 128) * 4096 + (b2 - 128) * 64
                             + (b3 - 128)) (utf8_decode bs3)
             else Inl UnicodeDecodeError
         | _ \<Rightarrow> Inl UnicodeDecodeError)
      else Inl UnicodeDecodeError)"

text \<open>
  \<open>str.strip()\<close> removes the leading and trailing characters that \<open>str.isspace\<close>
  accepts.
\<close>

definition isspace :: "nat \<Rightarrow> bool" where
  "isspace c \<longleftrightarrow>
     (9 \<le> c \<and> c \<le> 13) \<or> (28 \<le> c \<and> c \<le> 32) \<or> c = 133 \<or> c = 160 \<or> c = 5760 \<or>
     (8192 \<le> c \<and> c \<le> 8202) \<or> c = 8232 \<or> c = 8233 \<or> c = 8239 \<or> c = 8287 \<or> c = 12288"

definition strip :: "pystr \<Rightarrow> pystr" where
  "strip s = rev (dropWhile isspace (rev (dropWhile isspace s)))"

text \<open>
  The body of the \<open>try\<close> block of \<open>get_commitments\<close>, up to the bucket it builds. The
  \<open>continue\<close> after the length check is the result \<open>InvalidLength\<close>; like every
  exception of the block it makes the loop go on with the next entry.
\<close>

definition decode_commitment :: "pystr \<Rightarrow> error + Bucket" where
  "decode_commitment field_value =
     (case fromhex field_value of
        Inl e \<Rightarrow> Inl e
      | Inr bs \<Rightarrow>
          (case utf8_decode bs of
             Inl e \<Rightarrow> Inl e
           | Inr text \<Rightarrow>
               (let concatenated = strip text in
                if length concatenated \<noteq> 128 then Inl InvalidLength
                else Bucket_new (take 32 concatenated) (take 32 concatenated)
                       (take 32 (drop 32 concatenated)) (drop 64 concatenated))))"

section \<open>Refreshing all commitments\<close>

text \<open>
  An item of \<open>substrate.query_map\<close>: \<open>key_value\<close> is \<open>key.value\<close>, the hotkey of the
  publisher, and \<open>info_fields\<close> is \<open>value.value.get("info", {}).get("fields", [])\<close>. An
  element of that list is a dictionary from names to strings, or something that is not a
  dictionary.
\<close>

datatype field = DictField "(string \<times> pystr) list" | OtherField

record entry =
  key_value :: string
  info_fields :: "field list"

text \<open>
  A \<open>dict\<close> keeps its keys in the order of their first insertion; it is a list of pairs
  with distinct keys that \<open>AList.update\<close> writes to. \<open>py_dict\<close> is \<open>dict(pairs)\<close>, where
  a later pair overwrites an earlier one of the same key, and \<open>dict_get\<close> is
  \<open>d.get(k, dflt)\<close>.
\<close>

fun py_dict :: "('k \<times> 'v) list \<Rightarrow> ('k \<times> 'v) list \<Rightarrow> ('k \<times> 'v) list" where
  "py_dict [] d = d"
| "py_dict ((k, v) # ps) d = py_dict ps (AList.update k v d)"

definition dict_get :: "('k \<times> 'v) list \<Rightarrow> 'k \<Rightarrow> 'v \<Rightarrow> 'v" where
  "dict_get d k dflt = (case map_of d k of None \<Rightarrow> dflt | Some v \<Rightarrow> v)"

text \<open>
  \<open>if field_value.startswith("0x"): field_value = field_value[2:]\<close>.
\<close>

definition strip_0x :: "pystr \<Rightarrow> pystr" where
  "strip_0x field_value =
     (if take 2 field_value = str ''0x'' then drop 2 field_value else field_value)"

text \<open>
  The loop of \<open>get_commitments\<close> over the items. \<open>next(iter(fields[0].values()))\<close> is
  outside the \<open>try\<close> block: on an empty dictionary it raises \<open>StopIteration\<close>, which
  leaves the coroutine as \<open>RuntimeError\<close> and ends the whole function.
\<close>

fun get_commitments_loop ::
  "(string \<times> nat) list \<Rightarrow> entry list \<Rightarrow> (nat \<times> Bucket) list \<Rightarrow> error + (nat \<times> Bucket) list" where
  "get_commitments_loop hotkey_to_uid [] acc = Inr acc"
| "get_commitments_loop hotkey_to_uid (e # result) acc =
     (case map_of hotkey_to_uid (key_value e) of
        None \<Rightarrow> get_commitments_loop hotkey_to_uid result acc
      | Some uid \<Rightarrow>
          (case info_fields e of
             [] \<Rightarrow> get_commitments_loop hotkey_to_uid result acc
           | OtherField # fs \<Rightarrow> get_commitments_loop hotkey_to_uid result acc
           | DictField [] # fs \<Rightarrow> Inl RuntimeError
           | DictField ((k, v) # d) # fs \<Rightarrow>
               (let field_value = strip_0x v in
                case decode_commitment field_value of
                  Inl err \<Rightarrow> get_commitments_loop hotkey_to_uid result acc
                | Inr bucket \<Rightarrow>
                    get_commitments_loop hotkey_to_uid result
                      (AList.update uid bucket acc))))"

text \<open>
  \<open>get_commitments\<close>, given what \<open>substrate.query_map\<close> answers: an exception of the
  ledger, or the items.
\<close>

definition get_commitments :: "metagraph \<Rightarrow> error + entry list \<Rightarrow> error + (nat \<times> Bucket) list" where
  "get_commitments mg query_map =
     (case query_map of
        Inl e \<Rightarrow> Inl e
      | Inr result \<Rightarrow>
          get_commitments_loop (py_dict (zip (hotkeys mg) (uids mg)) []) result [])"

section \<open>Peer classification\<close>

definition update_peers_with_buckets :: "metagraph \<Rightarrow> chain_manager \<Rightarrow> chain_manager" where
  "update_peers_with_buckets mg st =
     (let uid_to_stake = py_dict (zip (uids mg) (S mg)) [] in
      st\<lparr>peers := filter (\<lambda>uid. dict_get uid_to_stake uid 0 \<le> 10000)
                      (map fst (commitments st))\<rparr>)"

section \<open>Storing a refresh\<close>

text \<open>
  \<open>fetch_commitments\<close> lets an exception of \<open>get_commitments\<close> pass; one round of
  \<open>_fetch_commitments_periodically\<close> catches it. The loop of the latter never ends: it
  is run here over the finitely many rounds that have happened so far, each with the
  metagraph and the answer of the ledger at that time.
\<close>

definition fetch_commitments ::
  "metagraph \<Rightarrow> error + entry list \<Rightarrow> chain_manager \<Rightarrow> error + chain_manager" where
  "fetch_commitments mg query_map st =
     (case get_commitments mg query_map of
        Inl e \<Rightarrow> Inl e
      | Inr cs \<Rightarrow>
          if cs \<noteq> [] then Inr (update_peers_with_buckets mg (st\<lparr>commitments := cs\<rparr>))
          else Inr st)"

definition fetch_commitments_round ::
  "metagraph \<Rightarrow> error + entry list \<Rightarrow> chain_manager \<Rightarrow> chain_manager" where
  "fetch_commitments_round mg query_map st =
     (case get_commitments mg query_map of
        Inl e \<Rightarrow> st
      | Inr cs \<Rightarrow>
          if cs \<noteq> [] then update_peers_with_buckets mg (st\<lparr>commitments := cs\<rparr>)
          else st)"

fun fetch_commitments_periodically ::
  "(metagraph \<times> (error + entry list)) list \<Rightarrow> chain_manager \<Rightarrow> chain_manager" where
  "fetch_commitments_periodically [] st = st"
| "fetch_commitments_periodically ((mg, query_map) # rounds) st =
     fetch_commitments_periodically rounds (fetch_commitments_round mg query_map st)"

section \<open>When the reconciliation publishes nothing\<close>

text \<open>
  The condition under which the \<open>try\<close> block of \<open>try_commit\<close> raises nothing: the
  hotkey has a slot, the commitment of the slot is read and parsed, and its concatenation
  \<open>name + access_key_id + secret_access_key\<close> is that of the bucket at hand.
\<close>

definition in_sync :: "metagraph \<Rightarrow> string \<Rightarrow> Bucket \<Rightarrow> ledger \<Rightarrow> bool" where
  "in_sync mg hotkey bucket l \<longleftrightarrow>
     (\<exists>uid commitment.
        list_index (hotkeys mg) hotkey = Inr uid \<and>
        get_commitment l uid = Inr commitment \<and>
        name commitment @ access_key_id commitment @ secret_access_key commitment
          = name bucket @ access_key_id bucket @ secret_access_key bucket)"

section \<open>Example inputs\<close>

text \<open>
  A metagraph with one neuron, ledgers and buckets for the scenarios below. Code point
  97 is \<open>a\<close>, 98 is \<open>b\<close>, and so on.
\<close>

definition empty_ledger :: ledger where
  "empty_ledger = \<lparr>store = (\<lambda>uid. Inl LedgerError), submitted = []\<rparr>"

definition one_neuron :: metagraph where
  "one_neuron = \<lparr>hotkeys = [''hk''], uids = [0], S = [0]\<rparr>"

definition short_secret_bucket :: Bucket where
  "short_secret_bucket =
     \<lparr>name = replicate 32 97, account_id = replicate 32 97,
      access_key_id = replicate 32 98, secret_access_key = replicate 40 99\<rparr>"

definition full_bucket :: Bucket where
  "full_bucket =
     \<lparr>name = replicate 32 97, account_id = replicate 32 97,
      access_key_id = replicate 32 98, secret_access_key = replicate 64 99\<rparr>"

definition wide_bucket :: Bucket where
  "wide_bucket =
     \<lparr>name = replicate 33 97, account_id = replicate 33 97,
      access_key_id = replicate 32 98, secret_access_key = replicate 64 99\<rparr>"

definition shifted_bucket :: Bucket where
  "shifted_bucket =
     \<lparr>name = replicate 31 97, account_id = replicate 32 97,
      access_key_id = replicate 33 97, secret_access_key = replicate 64 97\<rparr>"

definition uniform_ledger :: ledger where
  "uniform_ledger = \<lparr>store = (\<lambda>uid. Inr (replicate 128 97)), submitted = []\<rparr>"

definition stale_ledger :: ledger where
  "stale_ledger =
     \<lparr>store = (\<lambda>uid. Inr (replicate 32 97 @ replicate 32 98 @ replicate 64 100)),
      submitted = []\<rparr>"

definition synced_ledger :: ledger where
  "synced_ledger =
     \<lparr>store = (\<lambda>uid. Inr (replicate 32 97 @ replicate 32 98 @ replicate 64 99)),
      submitted = []\<rparr>"

text \<open>
  Wire payloads: \<open>well_formed_payload\<close> is the hexadecimal form of 32 times \<open>a\<close>, 32
  times \<open>b\<close> and 64 times \<open>c\<close>; \<open>short_payload\<close> that of 100 times \<open>a\<close>;
  \<open>padded_payload\<close> that of a blank and 128 times \<open>a\<close>; \<open>trailing_space_payload\<close> that
  of 127 times \<open>a\<close> and a blank. Each carries the marker \<open>0x\<close>.
\<close>

definition well_formed_payload :: pystr where
  "well_formed_payload =
     str ''0x'' @ concat (replicate 32 (str ''61'')) @ concat (replicate 32 (str ''62''))
       @ concat (replicate 64 (str ''63''))"

definition short_payload :: pystr where
  "short_payload = str ''0x'' @ concat (replicate 100 (str ''61''))"

definition padded_payload :: pystr where
  "padded_payload = str ''0x20'' @ concat (replicate 128 (str ''61''))"

definition trailing_space_payload :: pystr where
  "trailing_space_payload = str ''0x'' @ concat (replicate 127 (str ''61'')) @ str ''20''"

text \<open>
  Three neurons with the stakes 500, 20000 and 9999, three items of a bulk answer (one
  with a payload too short, one well-formed, one whose first field is an empty
  dictionary), and a state of the manager that knows three commitments.
\<close>

definition three_neurons :: metagraph where
  "three_neurons =
     \<lparr>hotkeys = [''hk1'', ''hk2'', ''hk3''], uids = [1, 2, 3], S = [500, 20000, 9999]\<rparr>"

definition malformed_entry :: entry where
  "malformed_entry =
     \<lparr>key_value = ''hk1'', info_fields = [DictField [(''Raw100'', short_payload)]]\<rparr>"

definition well_formed_entry :: entry where
  "well_formed_entry =
     \<lparr>key_value = ''hk3'', info_fields = [DictField [(''Raw128'', well_formed_payload)]]\<rparr>"

definition empty_dict_entry :: entry where
  "empty_dict_entry = \<lparr>key_value = ''hk1'', info_fields = [DictField []]\<rparr>"

definition known_state :: chain_manager where
  "known_state =
     \<lparr>current_block = 0, current_window = 0,
      commitments = [(1, full_bucket), (2, full_bucket), (7, full_bucket)], peers = [1, 7]\<rparr>"

section \<open>Properties of block tracking\<close>

lemma round_half_even_lower:
  assumes "0 < d" and "N * d \<le> n"
  shows "N \<le> round_half_even n d"
proof -
  have "N \<le> n div d"
    using zdiv_mono1 [OF assms(2) assms(1)] assms(1) by simp
  then show ?thesis
    by (auto simp: round_half_even_def Let_def)
qed

lemma round_half_even_upper:
  assumes "0 < d" and "n \<le> N * d"
  shows "round_half_even n d \<le> N"
proof (cases "n div d < N")
  case True
  then show ?thesis by (auto simp: round_half_even_def Let_def)
next
  case False
  have "n div d \<le> N"
    using zdiv_mono1 [OF assms(2) assms(1)] assms(1) by simp
  with False have q: "n div d = N" by simp
  have "n = (n div d) * d + n mod d" by simp
  with q assms have "n mod d \<le> 0" by (metis add_le_same_cancel1)
  moreover have "0 \<le> n mod d" using assms by simp
  ultimately have "n mod d = 0" by simp
  with q assms show ?thesis by (simp add: round_half_even_def Let_def)
qed


lemma scaled_quotient:
  assumes "0 \<le> a" and "0 < b" and "b \<le> 2 ^ t"
  shows "round_half_even (a * 2 ^ t) b div 2 ^ t = a div b"
    and "0 \<le> round_half_even (a * 2 ^ t) b"
proof -
  let ?x = "a div b" and ?m = "round_half_even (a * 2 ^ t) b"
  have "a = ?x * b + a mod b" by simp
  moreover have "0 \<le> a mod b" "a mod b < b" using assms(2) by simp_all
  moreover have "(?x + 1) * b = ?x * b + b" by (simp add: algebra_simps)
  ultimately have x: "?x * b \<le> a" "a < (?x + 1) * b"
    by linarith+
  have "0 \<le> ?x" using assms by (simp add: pos_imp_zdiv_nonneg_iff)
  have "(?x * 2 ^ t) * b \<le> a * 2 ^ t"
    using x(1) by (simp add: mult.assoc mult.left_commute mult.commute mult_right_mono)
  then have lower: "?x * 2 ^ t \<le> ?m"
    using assms(2) by (rule round_half_even_lower [rotated])
  have "1 \<le> (?x + 1) * b - a" using x(2) by simp
  then have "2 ^ t \<le> ((?x + 1) * b - a) * 2 ^ t"
    by (simp add: mult_le_cancel_right1)
  with assms(3) have "b \<le> ((?x + 1) * b - a) * 2 ^ t" by (rule order_trans)
  then have "a * 2 ^ t \<le> ((?x + 1) * 2 ^ t - 1) * b"
    by (simp add: algebra_simps)
  then have upper: "?m \<le> (?x + 1) * 2 ^ t - 1"
    using assms(2) by (rule round_half_even_upper [rotated])
  show "0 \<le> ?m"
    using lower \<open>0 \<le> ?x\<close> by (smt (verit) mult_nonneg_nonneg zero_le_power)
  have "?m div 2 ^ t = ?x"
  proof (rule int_div_pos_eq [of _ _ _ "?m - ?x * 2 ^ t"])
    show "?m = 2 ^ t * ?x + (?m - ?x * 2 ^ t)" by simp
    show "0 \<le> ?m - ?x * 2 ^ t" using lower by simp
    show "?m - ?x * 2 ^ t < 2 ^ t" using upper by (simp add: algebra_simps)
  qed
  then show "?m div 2 ^ t = a div b" .
qed


lemma floor_log2_small:
  assumes "0 < a" and "a \<le> 2 ^ 52" and "0 < b" and "b \<le> 2 ^ 52"
  shows "floor_log2 a b \<le> 52"
    and "b \<le> 2 ^ nat (52 - max (floor_log2 a b) (- 1022))"
proof -
  let ?e = "floor_log2 a b"
  have "?e \<le> 52 \<and> b \<le> 2 ^ nat (52 - max ?e (- 1022))"
  proof (cases "b \<le> a")
    case True
    let ?x = "a div b"
    have x: "0 < ?x" using True assms by (simp add: pos_imp_zdiv_pos_iff)
    have e: "?e = bitlen ?x - 1" using True by (simp add: floor_log2_def)
    have "1 \<le> bitlen ?x" using x bitlen_eq_zero_iff [of ?x] bitlen_nonneg [of ?x] by linarith
    then have e0: "0 \<le> ?e" using e by simp
    have "2 ^ nat ?e \<le> ?x" using bitlen_bounds [OF x] e by simp
    then have "2 ^ nat ?e * b \<le> ?x * b" using assms(3) by simp
    also have "?x * b \<le> a"
    proof -
      have "a = ?x * b + a mod b" by simp
      moreover have "0 \<le> a mod b" using assms(3) by simp
      ultimately show ?thesis by linarith
    qed
    finally have le: "2 ^ nat ?e * b \<le> 2 ^ 52" using assms(2) by simp
    have "(2::int) ^ nat ?e * 1 \<le> 2 ^ nat ?e * b" using assms(3) by (intro mult_left_mono) simp_all
    with le have "(2::int) ^ nat ?e \<le> 2 ^ 52" by linarith
    then have n: "nat ?e \<le> 52" by (simp only: power_increasing_iff [of 2] one_less_numeral_iff semiring_norm)
    then have e52: "?e \<le> 52" by simp
    have pw: "(2::int) ^ 52 = 2 ^ nat ?e * 2 ^ (52 - nat ?e)"
      using n by (simp only: power_add [symmetric] le_add_diff_inverse)
    have "(0::int) < 2 ^ nat ?e" by simp
    then have "b \<le> 2 ^ (52 - nat ?e)"
      using le [unfolded pw] by (simp only: mult_le_cancel_left_pos)
    moreover have "nat (52 - max ?e (- 1022)) = 52 - nat ?e"
      using e0 e52 by (simp add: max_def nat_diff_distrib)
    ultimately have "b \<le> 2 ^ nat (52 - max ?e (- 1022))" by (simp only:)
    with e52 show ?thesis by (rule conjI)
  next
    case False
    let ?y = "(b - 1) div a"
    have "0 < ?y" using False assms by (simp add: pos_imp_zdiv_pos_iff)
    then have "1 \<le> bitlen ?y" using bitlen_eq_zero_iff [of ?y] bitlen_nonneg [of ?y] by linarith
    moreover have "?e = - bitlen ?y" using False by (simp add: floor_log2_def)
    ultimately have e: "?e \<le> - 1" by simp
    then have "52 \<le> nat (52 - max ?e (- 1022))" by linarith
    then have "(2::int) ^ 52 \<le> 2 ^ nat (52 - max ?e (- 1022))"
      by (intro power_increasing) simp_all
    with assms(4) e show ?thesis by simp
  qed
  then show "?e \<le> 52" and "b \<le> 2 ^ nat (52 - max ?e (- 1022))" by simp_all
qed

lemma int_truediv_div:
  assumes "0 \<le> a" and "a \<le> 2 ^ 52" and "0 < b" and "b \<le> 2 ^ 52"
  shows "int_truediv a b = Inr (a div b)"
proof (cases "a = 0")
  case True
  then show ?thesis using assms by (simp add: int_truediv_def true_divide_def py_int_def)
next
  case False
  then have a: "0 < a" using assms by simp
  define e where "e = floor_log2 a b"
  define s where "s = max e (- 1022) - 52"
  define t where "t = nat (- s)"
  define m where "m = round_half_even (a * 2 ^ t) b"
  note fl = floor_log2_small [OF a assms(2) assms(3) assms(4), folded e_def]
  have s: "s \<le> 0" using fl(1) by (simp add: s_def)
  have "t = nat (52 - max e (- 1022))" by (simp add: t_def s_def algebra_simps)
  then have b: "b \<le> 2 ^ t" using fl(2) by simp
  have m: "m div 2 ^ t = a div b" "0 \<le> m"
    using scaled_quotient [OF assms(1) assms(3) b] by (simp_all add: m_def)
  have mant: "(if 0 \<le> s then round_half_even a (b * 2 ^ nat s)
        else round_half_even (a * 2 ^ nat (- s)) b) = m"
    using s by (cases "s = 0") (simp_all add: m_def t_def)
  have "true_divide a b =
      (if 1024 \<le> e \<or> (e = 1023 \<and> m = 2 ^ 53) then Inl OverflowError else Inr (m, s))"
  proof -
    have pos: "\<bar>a\<bar> = a" "\<bar>b\<bar> = b" "sgn a = 1" "sgn b = 1"
      and nz: "(a = 0) = False" "(b = 0) = False"
      using a assms(3) by simp_all
    show ?thesis
      by (simp only: true_divide_def Let_def pos nz if_False e_def [symmetric]
          s_def [symmetric] mant mult_1)
  qed
  then have td: "true_divide a b = Inr (m, s)"
    using fl(1) by simp
  have "py_int (m, s) = a div b"
  proof (cases "s = 0")
    case True
    then show ?thesis using m(1) by (simp add: py_int_def t_def)
  next
    case False
    with s have neg: "s < 0" by simp
    show ?thesis
    proof (cases "m = 0")
      case True
      with m(1) have "a div b = 0" by simp
      with True neg show ?thesis by (simp add: py_int_def)
    next
      case False
      with m(2) have "0 < m" by simp
      then show ?thesis using neg m(1) by (simp add: py_int_def t_def)
    qed
  qed
  with td show ?thesis by (simp add: int_truediv_def)
qed


lemma handler_window:
  assumes "0 \<le> number" and "number \<le> 2 ^ 52"
    and "0 < blocks_per_window hp" and "blocks_per_window hp \<le> 2 ^ 52"
  shows "handler hp number st =
           (None, st\<lparr>current_block := number,
                     current_window := number div blocks_per_window hp\<rparr>)"
  using int_truediv_div [OF assms] by (auto simp: handler_def Let_def)

text \<open>
  Below \<open>2^52\<close> the double quotient truncates to the floor: for a block number and a
  window length between 0 and \<open>2^52\<close>, the window length positive, the handler raises
  nothing and leaves \<open>current_window\<close> at the floor of \<open>current_block\<close> divided by the
  window length. With a window length of 100, the notifications 199 and then 200 leave
  the window at 1 and then at 2, and the notifications 150 and then 180 leave it at 1
  both times.
\<close>

lemma handler_window_bounded:
  "(0 \<le> number \<and> number \<le> 2 ^ 52 \<and>
    0 < blocks_per_window hp \<and> blocks_per_window hp \<le> 2 ^ 52 \<longrightarrow>
      fst (handler hp number st) = None \<and>
      current_block (snd (handler hp number st)) = number \<and>
      current_window (snd (handler hp number st)) =
        \<lfloor>real_of_int (current_block (snd (handler hp number st)))
           / real_of_int (blocks_per_window hp)\<rfloor>) \<and>
   current_window (snd (handler \<lparr>blocks_per_window = 100\<rparr> 199 st)) = 1 \<and>
   current_window
     (snd (handler \<lparr>blocks_per_window = 100\<rparr> 200
        (snd (handler \<lparr>blocks_per_window = 100\<rparr> 199 st)))) = 2 \<and>
   current_window (snd (handler \<lparr>blocks_per_window = 100\<rparr> 150 st)) = 1 \<and>
   current_window
     (snd (handler \<lparr>blocks_per_window = 100\<rparr> 180
        (snd (handler \<lparr>blocks_per_window = 100\<rparr> 150 st)))) = 1"
  by (simp add: handler_window floor_divide_of_int_eq)


section \<open>Properties of the record layout and of publishing\<close>

lemma list_index_bound: "list_index xs x = Inr i \<Longrightarrow> i < length xs \<and> xs ! i = x"
  by (induction xs arbitrary: i) (auto split: if_splits sum.splits)

lemma store_commit:
  "list_index (hotkeys mg) hk = Inr uid \<Longrightarrow>
   store (commit mg hk b l) uid = Inr (account_id b @ access_key_id b @ secret_access_key b)"
  by (simp add: commit_def subtensor_commit_def Let_def)

lemma submitted_commit:
  "submitted (commit mg hk b l) =
     submitted l @ [(hk, account_id b @ access_key_id b @ secret_access_key b)]"
  by (simp add: commit_def subtensor_commit_def Let_def)

lemma get_commitment_Inr:
  "get_commitment l uid = Inr obs \<longleftrightarrow>
     (\<exists>c. store l uid = Inr c \<and> length c = 128 \<and>
          obs = \<lparr>name = take 32 c, account_id = take 32 c,
                 access_key_id = take 32 (drop 32 c), secret_access_key = drop 64 c\<rparr>)"
  by (auto simp: get_commitment_def Bucket_new_def split: sum.splits)

lemma slices_append:
  assumes "length c = 128"
  shows "take 32 c @ take 32 (drop 32 c) @ drop 64 c = c"
proof -
  have "take 32 (drop 32 c) @ drop 64 c = drop 32 c"
    by (metis append_take_drop_id drop_drop numeral_Bit0)
  then show ?thesis by simp
qed

lemma try_commit_cases:
  "try_commit mg hk b l = (if in_sync mg hk b l then l else commit mg hk b l)"
  by (auto simp: try_commit_def in_sync_def Let_def split: sum.splits)

lemma in_sync_after_commit:
  assumes "list_index (hotkeys mg) hk = Inr uid" "name b = account_id b"
    "length (account_id b @ access_key_id b @ secret_access_key b) = 128"
  shows "in_sync mg hk b (commit mg hk b l)"
  unfolding in_sync_def get_commitment_Inr
  using assms store_commit[OF assms(1), of b l] slices_append[OF assms(3)]
  by simp

lemma one_neuron_index: "list_index (hotkeys one_neuron) ''hk'' = Inr 0"
  by (simp add: one_neuron_def)

lemma get_commitment_stale:
  "get_commitment stale_ledger uid =
     Inr \<lparr>name = replicate 32 97, account_id = replicate 32 97,
          access_key_id = replicate 32 98, secret_access_key = replicate 64 100\<rparr>"
  by (simp add: get_commitment_def stale_ledger_def Bucket_new_def)

lemma get_commitment_synced:
  "get_commitment synced_ledger uid = Inr full_bucket"
  by (simp add: get_commitment_def synced_ledger_def Bucket_new_def full_bucket_def)

lemma get_commitment_uniform:
  "get_commitment uniform_ledger uid =
     Inr \<lparr>name = replicate 32 97, account_id = replicate 32 97,
          access_key_id = replicate 32 97, secret_access_key = replicate 64 97\<rparr>"
  by (simp add: get_commitment_def uniform_ledger_def Bucket_new_def)

text \<open>
  With a secret of exactly 64 characters the payload has 128 characters, and the bucket
  is read back by \<open>get_commitment\<close> from what \<open>commit\<close> submitted with its three fields
  unchanged and its \<open>account_id\<close> as name.
\<close>

lemma roundtrip_full_width:
  assumes "list_index (hotkeys mg) hk = Inr uid"
    and "length (account_id b) = 32" and "length (access_key_id b) = 32"
    and "length (secret_access_key b) = 64"
  shows "get_commitment (commit mg hk b l) uid =
           Inr \<lparr>name = account_id b, account_id = account_id b,
                access_key_id = access_key_id b, secret_access_key = secret_access_key b\<rparr>"
  using assms by (simp add: get_commitment_def store_commit Bucket_new_def)

lemma roundtrip_full_width_example:
  "list_index (hotkeys one_neuron) ''hk'' = Inr 0 \<and>
   length (account_id full_bucket) = 32 \<and> length (access_key_id full_bucket) = 32 \<and>
   length (secret_access_key full_bucket) = 64 \<and>
   get_commitment (commit one_neuron ''hk'' full_bucket empty_ledger) 0 = Inr full_bucket"
proof -
  have h: "list_index (hotkeys one_neuron) ''hk'' = Inr 0"
    by (simp add: one_neuron_def)
  show ?thesis
    using h roundtrip_full_width [OF h, of full_bucket empty_ledger]
    by (simp add: full_bucket_def)
qed

text \<open>
  Claim C1. The claim promises the round trip for every bucket whose \<open>account_id\<close> and
  \<open>access_key_id\<close> have 32 characters and whose \<open>secret_access_key\<close> has at most 64, as
  the docstring of \<open>get_commitment\<close> describes the secret (variable length, up to 64
  characters). With a secret of 40 characters \<open>commit\<close> submits a payload of 104
  characters, and \<open>get_commitment\<close> raises \<open>ValueError\<close> on it instead of returning the
  bucket: the check of the length against 128 rejects what the docstring allows.
\<close>

theorem short_secret_is_rejected:
  "length (account_id short_secret_bucket) = 32 \<and>
   length (access_key_id short_secret_bucket) = 32 \<and>
   length (secret_access_key short_secret_bucket) \<le> 64 \<and>
   get_commitment (commit one_neuron ''hk'' short_secret_bucket empty_ledger) 0
     = Inl ValueError"
  by (simp add: get_commitment_def commit_def subtensor_commit_def Let_def
      one_neuron_def short_secret_bucket_def empty_ledger_def)

text \<open>
  Claim C9, as amended. \<open>commit\<close> checks no width: for every bucket it submits exactly
  one payload, the plain concatenation of \<open>account_id\<close>, \<open>access_key_id\<close> and
  \<open>secret_access_key\<close>.
\<close>

theorem commit_never_rejects:
  "submitted (commit mg hk b l) =
     submitted l @ [(hk, account_id b @ access_key_id b @ secret_access_key b)]"
  by (simp add: commit_def subtensor_commit_def Let_def)

text \<open>
  An \<open>account_id\<close> of 33 characters is not rejected: the payload of 129 characters is
  submitted.
\<close>

theorem wide_account_id_counterexample:
  "length (account_id wide_bucket) = 33 \<and>
   submitted (commit one_neuron ''hk'' wide_bucket empty_ledger)
     = [(''hk'', replicate 33 97 @ replicate 32 98 @ replicate 64 99)]"
  by (simp add: commit_def subtensor_commit_def Let_def wide_bucket_def empty_ledger_def)

section \<open>Properties of the reconciliation\<close>

text \<open>
  Claim C3, as amended. \<open>try_commit\<close> submits nothing exactly when the hotkey has a
  slot, the commitment of that slot is read and parsed, and the concatenation
  \<open>name + access_key_id + secret_access_key\<close> of the observed bucket equals that of the
  intended one; in every other case it submits exactly one payload, the concatenation
  \<open>account_id + access_key_id + secret_access_key\<close> of the intended bucket. When the
  intended \<open>name\<close> and \<open>access_key_id\<close> have 32 characters each, equal concatenations
  are the same as equal fields.
\<close>

theorem try_commit_compares_concatenations:
  "submitted (try_commit mg hk b l) =
     (if \<exists>uid obs. list_index (hotkeys mg) hk = Inr uid \<and> get_commitment l uid = Inr obs \<and>
           name obs @ access_key_id obs @ secret_access_key obs
             = name b @ access_key_id b @ secret_access_key b
      then submitted l
      else submitted l @ [(hk, account_id b @ access_key_id b @ secret_access_key b)]) \<and>
   (length (name b) = 32 \<and> length (access_key_id b) = 32 \<and> get_commitment l uid = Inr obs \<longrightarrow>
      (name obs @ access_key_id obs @ secret_access_key obs
         = name b @ access_key_id b @ secret_access_key b) =
      ((name obs, access_key_id obs, secret_access_key obs)
         = (name b, access_key_id b, secret_access_key b)))"
proof -
  have "submitted (try_commit mg hk b l) =
     (if in_sync mg hk b l then submitted l
      else submitted l @ [(hk, account_id b @ access_key_id b @ secret_access_key b)])"
    by (simp add: try_commit_cases submitted_commit)
  moreover have "(name obs @ access_key_id obs @ secret_access_key obs
         = name b @ access_key_id b @ secret_access_key b) =
      ((name obs, access_key_id obs, secret_access_key obs)
         = (name b, access_key_id b, secret_access_key b))"
    if "length (name b) = 32" "length (access_key_id b) = 32" "get_commitment l uid = Inr obs"
  proof -
    from that(3) obtain c where c: "length c = 128" "name obs = take 32 c"
      "access_key_id obs = take 32 (drop 32 c)"
      by (auto simp: get_commitment_Inr)
    have "length (name obs) = length (name b)"
      "length (access_key_id obs) = length (access_key_id b)"
      using c that by simp_all
    then show ?thesis by simp
  qed
  ultimately show ?thesis
    by (simp add: in_sync_def)
qed


theorem try_commit_compares_concatenations_witness:
  "submitted (try_commit one_neuron ''hk'' full_bucket stale_ledger)
     = [(''hk'', replicate 32 97 @ replicate 32 98 @ replicate 64 99)] \<and>
   submitted (try_commit one_neuron ''hk'' full_bucket synced_ledger) = [] \<and>
   length (name full_bucket) = 32 \<and> length (access_key_id full_bucket) = 32 \<and>
   get_commitment synced_ledger 0 = Inr full_bucket"
  using try_commit_compares_concatenations
          [of one_neuron "''hk''" full_bucket stale_ledger 0 full_bucket]
        try_commit_compares_concatenations
          [of one_neuron "''hk''" full_bucket synced_ledger 0 full_bucket]
  by (simp add: one_neuron_index get_commitment_stale get_commitment_synced)
     (simp add: full_bucket_def stale_ledger_def synced_ledger_def)

text \<open>
  The claim as stated compares field by field. The ledger holds 128 times \<open>a\<close>, so the
  observed fields are 32, 32 and 64 times \<open>a\<close>; the intended fields are 31, 33 and 64
  times \<open>a\<close>. The fields differ, the concatenations do not, and nothing is submitted.
\<close>

theorem concatenation_equality_counterexample:
  "get_commitment uniform_ledger 0 =
     Inr \<lparr>name = replicate 32 97, account_id = replicate 32 97,
          access_key_id = replicate 32 97, secret_access_key = replicate 64 97\<rparr> \<and>
   (replicate 32 97, replicate 32 97, replicate 64 97)
     \<noteq> (name shifted_bucket, access_key_id shifted_bucket, secret_access_key shifted_bucket) \<and>
   submitted (try_commit one_neuron ''hk'' shifted_bucket uniform_ledger)
     = submitted uniform_ledger"
proof -
  have "replicate 31 (97::nat) @ replicate 33 97 @ replicate 64 97
          = replicate 32 97 @ replicate 32 97 @ replicate 64 97"
    by (simp flip: replicate_add)
  then have "submitted (try_commit one_neuron ''hk'' shifted_bucket uniform_ledger)
     = submitted uniform_ledger"
    by (simp add: try_commit_def one_neuron_index get_commitment_uniform shifted_bucket_def)
  moreover have "replicate 32 (97::nat) \<noteq> replicate 31 97"
    by (metis length_replicate numeral_eq_iff semiring_norm(88) semiring_norm(89) semiring_norm(87))
  ultimately show ?thesis
    by (simp add: get_commitment_uniform shifted_bucket_def)
qed

text \<open>
  Claim C8, as amended. For a hotkey with a slot and an intended bucket whose \<open>name\<close> is
  its \<open>account_id\<close> and whose payload has 128 characters, on a ledger that nobody else
  writes, the second of two reconciliations in succession changes nothing; the two
  together submit one payload when the first one found the ledger out of sync, and none
  when it found it in sync.
\<close>

theorem try_commit_twice:
  assumes "list_index (hotkeys mg) hk = Inr uid" and "name b = account_id b"
    and "length (account_id b @ access_key_id b @ secret_access_key b) = 128"
  shows "try_commit mg hk b (try_commit mg hk b l) = try_commit mg hk b l \<and>
         submitted (try_commit mg hk b (try_commit mg hk b l)) =
           (if in_sync mg hk b l then submitted l
            else submitted l @ [(hk, account_id b @ access_key_id b @ secret_access_key b)])"
proof (cases "in_sync mg hk b l")
  case True
  then show ?thesis by (simp add: try_commit_cases)
next
  case False
  have "in_sync mg hk b (commit mg hk b l)"
    using assms by (rule in_sync_after_commit)
  with False show ?thesis
    by (simp add: try_commit_cases submitted_commit)
qed

theorem try_commit_twice_witness:
  "list_index (hotkeys one_neuron) ''hk'' = Inr 0 \<and>
   name full_bucket = account_id full_bucket \<and>
   length (account_id full_bucket @ access_key_id full_bucket @ secret_access_key full_bucket)
     = 128 \<and>
   \<not> in_sync one_neuron ''hk'' full_bucket stale_ledger \<and>
   submitted (try_commit one_neuron ''hk'' full_bucket
                (try_commit one_neuron ''hk'' full_bucket stale_ledger))
     = [(''hk'', replicate 32 97 @ replicate 32 98 @ replicate 64 99)]"
proof -
  have h: "list_index (hotkeys one_neuron) ''hk'' = Inr 0"
    by (rule one_neuron_index)
  have n: "name full_bucket = account_id full_bucket"
    by (simp add: full_bucket_def)
  have len: "length (account_id full_bucket @ access_key_id full_bucket
                       @ secret_access_key full_bucket) = 128"
    by (simp add: full_bucket_def)
  have "replicate 64 (100::nat) \<noteq> replicate 64 99"
    by (simp add: replicate_eq_replicate)
  then have ns: "\<not> in_sync one_neuron ''hk'' full_bucket stale_ledger"
    by (simp add: in_sync_def one_neuron_index get_commitment_stale full_bucket_def)
  show ?thesis
    using h n len ns try_commit_twice [OF h n len, of stale_ledger, THEN conjunct2]
    by (simp add: full_bucket_def stale_ledger_def)
qed

text \<open>
  The claim as stated promises exactly one publish from any ledger state. From a ledger
  that already holds the intended commitment the two runs publish nothing; with a secret
  of 40 characters the published payload is never read back, and the two runs publish
  twice.
\<close>

theorem reconciliation_twice_counterexample:
  "submitted synced_ledger = [] \<and>
   submitted (try_commit one_neuron ''hk'' full_bucket
                (try_commit one_neuron ''hk'' full_bucket synced_ledger)) = [] \<and>
   submitted empty_ledger = [] \<and>
   submitted (try_commit one_neuron ''hk'' short_secret_bucket
                (try_commit one_neuron ''hk'' short_secret_bucket empty_ledger))
     = [(''hk'', replicate 32 97 @ replicate 32 98 @ replicate 40 99),
        (''hk'', replicate 32 97 @ replicate 32 98 @ replicate 40 99)]"
proof -
  have a: "try_commit one_neuron ''hk'' full_bucket synced_ledger = synced_ledger"
    by (simp add: try_commit_def one_neuron_index get_commitment_synced)
  have b: "try_commit one_neuron ''hk'' short_secret_bucket empty_ledger
             = commit one_neuron ''hk'' short_secret_bucket empty_ledger"
    by (simp add: try_commit_def one_neuron_index get_commitment_def empty_ledger_def)
  have c: "get_commitment (commit one_neuron ''hk'' short_secret_bucket empty_ledger) 0
             = Inl ValueError"
    by (simp add: get_commitment_def store_commit [OF one_neuron_index] short_secret_bucket_def)
  have d: "try_commit one_neuron ''hk'' short_secret_bucket
             (commit one_neuron ''hk'' short_secret_bucket empty_ledger)
           = commit one_neuron ''hk'' short_secret_bucket
               (commit one_neuron ''hk'' short_secret_bucket empty_ledger)"
    by (simp add: try_commit_def one_neuron_index c)
  show ?thesis
    by (simp add: a b d submitted_commit)
       (simp add: synced_ledger_def empty_ledger_def short_secret_bucket_def)
qed

section \<open>Properties of decoding\<close>

lemma fromhex_pairs:
  assumes "\<not> is_ascii_space h" and "hex_digit h = Some a" and "hex_digit l = Some b"
  shows "fromhex (concat (replicate n [h, l]) @ rest) =
           (case fromhex rest of Inl e \<Rightarrow> Inl e | Inr bs \<Rightarrow> Inr (replicate n (a * 16 + b) @ bs))"
  using assms by (induction n) (auto split: sum.splits)

lemma utf8_decode_ascii:
  "\<forall>b\<in>set bs. b < 128 \<Longrightarrow> utf8_decode bs = Inr bs"
  by (induction bs) (auto simp: decoded_def)

lemma strip_id:
  assumes "s \<noteq> []" and "\<not> isspace (hd s)" and "\<not> isspace (last s)"
  shows "strip s = s"
proof -
  have "dropWhile isspace s = s"
    using assms by (simp add: dropWhile_eq_self_iff)
  moreover have "dropWhile isspace (rev s) = rev s"
    using assms by (simp add: dropWhile_eq_self_iff hd_rev)
  ultimately show ?thesis by (simp add: strip_def)
qed

lemma strip_leading: "isspace c \<Longrightarrow> strip (c # s) = strip s"
  by (simp add: strip_def)

lemma strip_trailing:
  assumes "isspace c"
  shows "strip (s @ [c]) = strip s"
proof (cases "\<forall>x\<in>set s. isspace x")
  case True
  then have "dropWhile isspace s = []" and "dropWhile isspace (s @ [c]) = []"
    using assms by (induction s) simp_all
  then show ?thesis by (simp only: strip_def)
next
  case False
  then have "dropWhile isspace (s @ [c]) = dropWhile isspace s @ [c]"
    by (induction s) simp_all
  then show ?thesis
    using assms by (simp add: strip_def)
qed

lemma strip_0x_str: "strip_0x (str ''0x'' @ s) = s"
  by (simp add: strip_0x_def str_def)

lemma hex_pair_61: "\<not> is_ascii_space 54 \<and> hex_digit 54 = Some 6 \<and> hex_digit 49 = Some 1"
  by (simp add: is_ascii_space_def hex_digit_def)

lemma str_61: "str ''61'' = [54, 49]" and str_62: "str ''62'' = [54, 50]"
  and str_63: "str ''63'' = [54, 51]" and str_20: "str ''20'' = [50, 48]"
  by (simp_all add: str_def)

lemma fromhex_61:
  "fromhex (concat (replicate n (str ''61'')) @ rest) =
     (case fromhex rest of Inl e \<Rightarrow> Inl e | Inr bs \<Rightarrow> Inr (replicate n 97 @ bs))"
  using fromhex_pairs [of 54 6 49 1 n rest]
  by (simp add: str_61 is_ascii_space_def hex_digit_def split: sum.splits)

lemma fromhex_62:
  "fromhex (concat (replicate n (str ''62'')) @ rest) =
     (case fromhex rest of Inl e \<Rightarrow> Inl e | Inr bs \<Rightarrow> Inr (replicate n 98 @ bs))"
  using fromhex_pairs [of 54 6 50 2 n rest]
  by (simp add: str_62 is_ascii_space_def hex_digit_def split: sum.splits)

lemma fromhex_63:
  "fromhex (concat (replicate n (str ''63'')) @ rest) =
     (case fromhex rest of Inl e \<Rightarrow> Inl e | Inr bs \<Rightarrow> Inr (replicate n 99 @ bs))"
  using fromhex_pairs [of 54 6 51 3 n rest]
  by (simp add: str_63 is_ascii_space_def hex_digit_def split: sum.splits)

lemma fromhex_well_formed:
  "fromhex (strip_0x well_formed_payload) = Inr (replicate 32 97 @ replicate 32 98 @ replicate 64 99)"
  unfolding well_formed_payload_def strip_0x_str
  using fromhex_63 [of 64 "[]"]
  by (simp add: fromhex_61 fromhex_62)

lemma decode_well_formed:
  "decode_commitment (strip_0x well_formed_payload) = Inr full_bucket"
proof -
  let ?t = "replicate 32 97 @ replicate 32 98 @ replicate 64 (99::nat)"
  have "utf8_decode ?t = Inr ?t"
    by (rule utf8_decode_ascii) auto
  moreover have "strip ?t = ?t"
    by (rule strip_id) (simp_all add: isspace_def)
  ultimately show ?thesis
    by (simp add: decode_commitment_def fromhex_well_formed Bucket_new_def full_bucket_def)
qed

lemma decode_short:
  "decode_commitment (strip_0x short_payload) = Inl InvalidLength"
proof -
  let ?t = "replicate 100 (97::nat)"
  have "fromhex (strip_0x short_payload) = Inr ?t"
    unfolding short_payload_def strip_0x_str
    using fromhex_61 [of 100 "[]"] by simp
  moreover have "utf8_decode ?t = Inr ?t"
    by (rule utf8_decode_ascii) auto
  moreover have "strip ?t = ?t"
    by (rule strip_id) (simp_all add: isspace_def)
  ultimately show ?thesis
    by (simp add: decode_commitment_def)
qed

lemma fromhex_20: "fromhex (str ''20'' @ rest) =
     (case fromhex rest of Inl e \<Rightarrow> Inl e | Inr bs \<Rightarrow> Inr (32 # bs))"
  by (simp add: str_20 is_ascii_space_def hex_digit_def split: sum.splits)

lemma decode_commitment_Inr:
  "decode_commitment fv = Inr b \<longleftrightarrow>
     (\<exists>bs text. fromhex fv = Inr bs \<and> utf8_decode bs = Inr text \<and>
        length (strip text) = 128 \<and>
        b = \<lparr>name = take 32 (strip text), account_id = take 32 (strip text),
             access_key_id = take 32 (drop 32 (strip text)),
             secret_access_key = drop 64 (strip text)\<rparr>)"
  by (auto simp: decode_commitment_def Let_def Bucket_new_def split: sum.splits)

lemma decode_commitment_Inl:
  "(\<exists>e. decode_commitment fv = Inl e) \<longleftrightarrow>
     (\<exists>e. fromhex fv = Inl e) \<or>
     (\<exists>bs. fromhex fv = Inr bs \<and>
        ((\<exists>e. utf8_decode bs = Inl e) \<or>
         (\<exists>text. utf8_decode bs = Inr text \<and> length (strip text) \<noteq> 128)))"
  by (auto simp: decode_commitment_def Let_def Bucket_new_def split: sum.splits)

text \<open>
  Claim C4, as amended. Decoding a wire payload, after the marker \<open>0x\<close> is removed,
  returns a bucket exactly when \<open>bytes.fromhex\<close> succeeds, the bytes are well-formed
  UTF-8 and the decoded text, with the whitespace at both ends stripped, has exactly 128
  characters; the bucket then has the characters \<open>[0:32)\<close> of the stripped text as name
  and account id, \<open>[32:64)\<close> as access key id and \<open>[64:128)\<close> as secret access key, and
  nothing else is checked. It fails exactly in the other cases. A non-empty text that
  neither begins nor ends with whitespace is its own stripped text.
\<close>

theorem decode_commitment_fails_iff:
  "(decode_commitment (strip_0x v) = Inr b \<longleftrightarrow>
     (\<exists>bs text. fromhex (strip_0x v) = Inr bs \<and> utf8_decode bs = Inr text \<and>
        length (strip text) = 128 \<and>
        b = \<lparr>name = take 32 (strip text), account_id = take 32 (strip text),
             access_key_id = take 32 (drop 32 (strip text)),
             secret_access_key = drop 64 (strip text)\<rparr>)) \<and>
   ((\<exists>e. decode_commitment (strip_0x v) = Inl e) \<longleftrightarrow>
     (\<exists>e. fromhex (strip_0x v) = Inl e) \<or>
     (\<exists>bs. fromhex (strip_0x v) = Inr bs \<and>
        ((\<exists>e. utf8_decode bs = Inl e) \<or>
         (\<exists>text. utf8_decode bs = Inr text \<and> length (strip text) \<noteq> 128)))) \<and>
   (t \<noteq> [] \<and> \<not> isspace (hd t) \<and> \<not> isspace (last t) \<longrightarrow> strip t = t)"
  using decode_commitment_Inr [of "strip_0x v" b] decode_commitment_Inl [of "strip_0x v"]
    strip_id [of t]
  by blast

theorem decode_commitment_fails_iff_witness:
  "replicate 128 (97::nat) \<noteq> [] \<and> \<not> isspace (hd (replicate 128 97)) \<and>
   \<not> isspace (last (replicate 128 97)) \<and> strip (replicate 128 97) = replicate 128 97 \<and>
   (\<exists>e. decode_commitment (strip_0x short_payload) = Inl e)"
proof -
  have a: "replicate 128 (97::nat) \<noteq> []" "\<not> isspace (hd (replicate 128 97))"
    "\<not> isspace (last (replicate 128 97))"
    by (simp_all add: isspace_def)
  have "fromhex (strip_0x short_payload) = Inr (replicate 100 97)"
    unfolding short_payload_def strip_0x_str
    using fromhex_61 [of 100 "[]"] by simp
  moreover have "utf8_decode (replicate 100 97) = Inr (replicate 100 97)"
    by (rule utf8_decode_ascii) auto
  moreover have "length (strip (replicate 100 (97::nat))) \<noteq> 128"
    by (subst strip_id) (simp_all add: isspace_def)
  ultimately have b: "\<exists>bs. fromhex (strip_0x short_payload) = Inr bs \<and>
        ((\<exists>e. utf8_decode bs = Inl e) \<or>
         (\<exists>text. utf8_decode bs = Inr text \<and> length (strip text) \<noteq> 128))"
    by blast
  show ?thesis
    using a b decode_commitment_fails_iff [of short_payload full_bucket "replicate 128 97"]
    by blast
qed

text \<open>
  The claim as stated measures the text that hexadecimal decoding yields. A payload that
  decodes to a blank and 128 times \<open>a\<close>, 129 characters, is accepted; one that decodes to
  127 times \<open>a\<close> and a blank, 128 characters, is rejected.
\<close>

theorem surrounding_whitespace_counterexample:
  "fromhex (strip_0x padded_payload) = Inr (32 # replicate 128 97) \<and>
   utf8_decode (32 # replicate 128 97) = Inr (32 # replicate 128 97) \<and>
   length (32 # replicate 128 (97::nat)) = 129 \<and>
   decode_commitment (strip_0x padded_payload) =
     Inr \<lparr>name = replicate 32 97, account_id = replicate 32 97,
          access_key_id = replicate 32 97, secret_access_key = replicate 64 97\<rparr> \<and>
   fromhex (strip_0x trailing_space_payload) = Inr (replicate 127 97 @ [32]) \<and>
   utf8_decode (replicate 127 97 @ [32]) = Inr (replicate 127 97 @ [32]) \<and>
   length (replicate 127 (97::nat) @ [32]) = 128 \<and>
   decode_commitment (strip_0x trailing_space_payload) = Inl InvalidLength"
proof -
  have p: "padded_payload = str ''0x'' @ str ''20'' @ concat (replicate 128 (str ''61''))"
    by (simp add: padded_payload_def str_def)
  have f1: "fromhex (strip_0x padded_payload) = Inr (32 # replicate 128 97)"
    unfolding p strip_0x_str
    using fromhex_61 [of 128 "[]"] by (simp add: fromhex_20)
  have u1: "utf8_decode (32 # replicate 128 97) = Inr (32 # replicate 128 97)"
    by (rule utf8_decode_ascii) auto
  have s1: "strip (32 # replicate 128 97) = replicate 128 97"
    by (simp add: strip_leading strip_id isspace_def)
  have d1: "decode_commitment (strip_0x padded_payload) =
     Inr \<lparr>name = replicate 32 97, account_id = replicate 32 97,
          access_key_id = replicate 32 97, secret_access_key = replicate 64 97\<rparr>"
    by (simp only: decode_commitment_def f1 u1 s1 sum.case Let_def)
       (simp add: Bucket_new_def)
  have f2: "fromhex (strip_0x trailing_space_payload) = Inr (replicate 127 97 @ [32])"
    unfolding trailing_space_payload_def strip_0x_str
    using fromhex_20 [of "[]"] by (simp add: fromhex_61)
  have u2: "utf8_decode (replicate 127 97 @ [32]) = Inr (replicate 127 97 @ [32])"
    by (rule utf8_decode_ascii) auto
  have s2: "strip (replicate 127 97 @ [32]) = replicate 127 97"
    by (simp add: strip_trailing strip_id isspace_def)
  have d2: "decode_commitment (strip_0x trailing_space_payload) = Inl InvalidLength"
    by (simp add: decode_commitment_def f2 u2 s2)
  show ?thesis
    using f1 u1 d1 f2 u2 d2 by simp
qed

section \<open>Properties of the refresh\<close>

lemma loop_skips_undecodable:
  assumes "info_fields e = DictField ((k, v) # d) # fs"
    and "decode_commitment (strip_0x v) = Inl err"
  shows "get_commitments_loop h (xs @ e # ys) acc = get_commitments_loop h (xs @ ys) acc"
proof (induction xs arbitrary: acc)
  case Nil
  show ?case using assms by (simp split: option.split)
next
  case (Cons x xs)
  show ?case
    by (simp add: Cons.IH Let_def split: option.split list.split field.split sum.split)
qed

lemma loop_total:
  assumes "\<forall>e\<in>set items. \<forall>fs. info_fields e \<noteq> DictField [] # fs"
  shows "\<exists>cs. get_commitments_loop h items acc = Inr cs"
  using assms
proof (induction items arbitrary: acc)
  case Nil
  show ?case by simp
next
  case (Cons x xs)
  then show ?case
    by (auto simp: Let_def split: option.split list.split field.split sum.split)
qed

lemma loop_all_undecodable:
  assumes "\<forall>e\<in>set items. \<exists>k v d fs err.
             info_fields e = DictField ((k, v) # d) # fs \<and> decode_commitment (strip_0x v) = Inl err"
  shows "get_commitments_loop h items acc = Inr acc"
  using assms
proof (induction items)
  case Nil
  show ?case by simp
next
  case (Cons x xs)
  then show ?case
    by (auto simp: Let_def split: option.split)
qed

lemma three_neurons_dict:
  "py_dict (zip (hotkeys three_neurons) (uids three_neurons)) []
     = [(''hk1'', 1), (''hk2'', 2), (''hk3'', 3)]"
  by (simp add: three_neurons_def)

lemma sibling_indexed:
  "get_commitments three_neurons (Inr [malformed_entry, well_formed_entry])
     = Inr [(3, full_bucket)]"
  by (simp add: get_commitments_def three_neurons_dict malformed_entry_def
      well_formed_entry_def decode_short decode_well_formed)

text \<open>
  What is raised inside the \<open>try\<close> block is contained. In every batch, an item whose
  payload fails to decode is skipped and nothing more: the refresh returns what it
  returns for the batch without that item, and a batch without an empty dictionary as
  first field always yields an index. A payload of 100 characters fails to decode, and
  from the batch of such an item and a well-formed sibling the sibling is indexed, under
  slot 3.
\<close>

lemma decode_failure_is_skipped:
  "(info_fields e = DictField ((k, v) # d) # fs \<and> decode_commitment (strip_0x v) = Inl err \<longrightarrow>
      get_commitments mg (Inr (xs @ e # ys)) = get_commitments mg (Inr (xs @ ys))) \<and>
   ((\<forall>e\<in>set items. \<forall>fs. info_fields e \<noteq> DictField [] # fs) \<longrightarrow>
      (\<exists>cs. get_commitments mg (Inr items) = Inr cs)) \<and>
   decode_commitment (strip_0x short_payload) = Inl InvalidLength \<and>
   get_commitments three_neurons (Inr [malformed_entry, well_formed_entry])
     = Inr [(3, full_bucket)]"
proof -
  have skipped: "info_fields e = DictField ((k, v) # d) # fs \<and>
      decode_commitment (strip_0x v) = Inl err \<longrightarrow>
      get_commitments mg (Inr (xs @ e # ys)) = get_commitments mg (Inr (xs @ ys))"
    using loop_skips_undecodable [of e k v d fs err _ xs ys "[]"]
    by (simp add: get_commitments_def)
  have total: "(\<forall>e\<in>set items. \<forall>fs. info_fields e \<noteq> DictField [] # fs) \<longrightarrow>
      (\<exists>cs. get_commitments mg (Inr items) = Inr cs)"
    using loop_total [of items _ "[]"]
    by (simp add: get_commitments_def)
  show ?thesis
    by (intro conjI) (fact skipped, fact total, fact decode_short, fact sibling_indexed)
qed

lemma decode_failure_is_skipped_example:
  "info_fields malformed_entry = [DictField [(''Raw100'', short_payload)]] \<and>
   decode_commitment (strip_0x short_payload) = Inl InvalidLength \<and>
   get_commitments three_neurons (Inr ([] @ malformed_entry # [well_formed_entry]))
     = get_commitments three_neurons (Inr ([] @ [well_formed_entry])) \<and>
   (\<exists>cs. get_commitments three_neurons (Inr [malformed_entry, well_formed_entry]) = Inr cs)"
proof -
  have a: "info_fields malformed_entry = DictField ((''Raw100'', short_payload) # []) # []"
    by (simp add: malformed_entry_def)
  have b: "\<forall>e\<in>set [malformed_entry, well_formed_entry].
             \<forall>fs. info_fields e \<noteq> DictField [] # fs"
    by (simp add: malformed_entry_def well_formed_entry_def)
  note inst = decode_failure_is_skipped [of malformed_entry "''Raw100''" short_payload
      "[]" "[]" InvalidLength three_neurons "[]" "[well_formed_entry]"
      "[malformed_entry, well_formed_entry]"]
  have skipped: "get_commitments three_neurons (Inr ([] @ malformed_entry # [well_formed_entry]))
     = get_commitments three_neurons (Inr ([] @ [well_formed_entry]))"
    using inst a decode_short by blast
  have total: "\<exists>cs. get_commitments three_neurons
      (Inr [malformed_entry, well_formed_entry]) = Inr cs"
    using inst b by blast
  show ?thesis
    by (intro conjI) (fact a, fact decode_short, fact skipped, fact total)
qed

text \<open>
  Claim C7. The claim lets no failure of a single record abort the refresh. The first
  value of the first field is taken by \<open>next(iter(fields[0].values()))\<close> before the
  \<open>try\<close> block begins, so an item of a known hotkey whose first field is an empty
  dictionary raises out of the loop: the batch of a well-formed item and such an item,
  in either order, ends \<open>get_commitments\<close> with the exception, \<open>fetch_commitments\<close>
  raises, and the periodic round keeps the state it had. The well-formed sibling, which
  alone is indexed under slot 3, is lost.
\<close>

theorem empty_dict_aborts_refresh:
  "get_commitments three_neurons (Inr [well_formed_entry]) = Inr [(3, full_bucket)] \<and>
   get_commitments three_neurons (Inr [well_formed_entry, empty_dict_entry])
     = Inl RuntimeError \<and>
   get_commitments three_neurons (Inr [empty_dict_entry, well_formed_entry])
     = Inl RuntimeError \<and>
   fetch_commitments three_neurons (Inr [well_formed_entry, empty_dict_entry]) known_state
     = Inl RuntimeError \<and>
   fetch_commitments_round three_neurons (Inr [well_formed_entry, empty_dict_entry])
     known_state = known_state"
proof -
  have a: "get_commitments three_neurons (Inr [well_formed_entry]) = Inr [(3, full_bucket)]"
    by (simp add: get_commitments_def three_neurons_dict well_formed_entry_def
        decode_well_formed)
  have b: "get_commitments three_neurons (Inr [well_formed_entry, empty_dict_entry])
     = Inl RuntimeError"
    by (simp add: get_commitments_def three_neurons_dict well_formed_entry_def
        empty_dict_entry_def decode_well_formed)
  have c: "get_commitments three_neurons (Inr [empty_dict_entry, well_formed_entry])
     = Inl RuntimeError"
    by (simp add: get_commitments_def three_neurons_dict empty_dict_entry_def)
  have d: "fetch_commitments three_neurons (Inr [well_formed_entry, empty_dict_entry])
     known_state = Inl RuntimeError"
    by (simp add: fetch_commitments_def b)
  have e: "fetch_commitments_round three_neurons (Inr [well_formed_entry, empty_dict_entry])
     known_state = known_state"
    by (simp add: fetch_commitments_round_def b)
  show ?thesis
    by (intro conjI) (fact a, fact b, fact c, fact d, fact e)
qed

lemma round_unchanged:
  "get_commitments mg q = Inr [] \<Longrightarrow> fetch_commitments_round mg q st = st"
  by (simp add: fetch_commitments_round_def)

lemma rounds_unchanged:
  "\<forall>r\<in>set rounds. get_commitments (fst r) (snd r) = Inr [] \<Longrightarrow>
   fetch_commitments_periodically rounds st = st"
  by (induction rounds) (auto simp: round_unchanged)

text \<open>
  Claim C2. When \<open>get_commitments\<close> yields no decoded pair, the state of the manager
  after \<open>fetch_commitments\<close>, and after a round of the periodic refresh, is the state
  before it: the index is kept and the peers are not recomputed; so is the state after
  any number of such rounds. An empty batch yields no pair, and so does a batch in which
  every payload fails to decode.
\<close>

theorem empty_refresh_keeps_index:
  "(get_commitments mg q = Inr [] \<longrightarrow>
      fetch_commitments mg q st = Inr st \<and> fetch_commitments_round mg q st = st) \<and>
   ((\<forall>r\<in>set rounds. get_commitments (fst r) (snd r) = Inr []) \<longrightarrow>
      fetch_commitments_periodically rounds st = st) \<and>
   get_commitments mg (Inr []) = Inr [] \<and>
   ((\<forall>e\<in>set items. \<exists>k v d fs err.
        info_fields e = DictField ((k, v) # d) # fs \<and>
        decode_commitment (strip_0x v) = Inl err) \<longrightarrow>
      get_commitments mg (Inr items) = Inr [])"
  using loop_all_undecodable [of items _ "[]"] rounds_unchanged [of rounds st]
  by (simp add: fetch_commitments_def round_unchanged get_commitments_def)

theorem empty_refresh_keeps_index_witness:
  "get_commitments three_neurons (Inr [malformed_entry]) = Inr [] \<and>
   fetch_commitments three_neurons (Inr [malformed_entry]) known_state = Inr known_state \<and>
   fetch_commitments_round three_neurons (Inr [malformed_entry]) known_state = known_state \<and>
   fetch_commitments_periodically
     [(three_neurons, Inr [malformed_entry]), (one_neuron, Inr [])] known_state = known_state \<and>
   commitments known_state = [(1, full_bucket), (2, full_bucket), (7, full_bucket)] \<and>
   peers known_state = [1, 7]"
proof -
  have a: "\<forall>e\<in>set [malformed_entry]. \<exists>k v d fs err.
        info_fields e = DictField ((k, v) # d) # fs \<and>
        decode_commitment (strip_0x v) = Inl err"
    using decode_short by (simp add: malformed_entry_def)
  have b: "get_commitments three_neurons (Inr [malformed_entry]) = Inr []"
    using a empty_refresh_keeps_index [of three_neurons "Inr [malformed_entry]" known_state
        "[]" "[malformed_entry]"]
    by blast
  have c: "get_commitments one_neuron (Inr []) = Inr []"
    using empty_refresh_keeps_index [of one_neuron "Inr []" known_state "[]" "[]"]
    by blast
  have d: "\<forall>r\<in>set [(three_neurons, Inr [malformed_entry]), (one_neuron, Inr [])].
             get_commitments (fst r) (snd r) = Inr []"
    using b c by simp
  note inst = empty_refresh_keeps_index [of three_neurons "Inr [malformed_entry]" known_state
      "[(three_neurons, Inr [malformed_entry]), (one_neuron, Inr [])]" "[]"]
  have e: "fetch_commitments three_neurons (Inr [malformed_entry]) known_state
             = Inr known_state"
    and f: "fetch_commitments_round three_neurons (Inr [malformed_entry]) known_state
             = known_state"
    using inst b by blast+
  have g: "fetch_commitments_periodically
     [(three_neurons, Inr [malformed_entry]), (one_neuron, Inr [])] known_state = known_state"
    using inst d by blast
  have h: "commitments known_state = [(1, full_bucket), (2, full_bucket), (7, full_bucket)]"
    and i: "peers known_state = [1, 7]"
    by (simp_all add: known_state_def)
  show ?thesis
    by (intro conjI) (fact b, fact e, fact f, fact g, fact h, fact i)
qed

section \<open>Properties of peer classification\<close>

lemma map_of_py_dict_Nil: "map_of (py_dict ps d) k = (case map_of (rev ps) k of None \<Rightarrow> map_of d k | Some v \<Rightarrow> Some v)"
proof (induction ps d rule: py_dict.induct)
  case (1 d)
  then show ?case by simp
next
  case (2 k' v ps d)
  then show ?case
    by (auto simp: update_conv' map_add_def split: option.splits)
qed

lemma dom_py_dict: "fst ` set (py_dict ps d) = fst ` set ps \<union> fst ` set d"
  by (induction ps d rule: py_dict.induct) (auto simp: dom_update)

lemma peers_set:
  "set (peers (update_peers_with_buckets mg st)) =
     {uid \<in> fst ` set (commitments st). dict_get (py_dict (zip (uids mg) (S mg)) []) uid 0 \<le> 10000}"
  by (auto simp: update_peers_with_buckets_def Let_def)

lemma stake_lookup:
  assumes "distinct (uids mg)" "length (S mg) = length (uids mg)" "i < length (uids mg)"
  shows "dict_get (py_dict (zip (uids mg) (S mg)) []) (uids mg ! i) 0 = S mg ! i"
proof -
  let ?ps = "rev (zip (uids mg) (S mg))"
  have "distinct (map fst ?ps)"
    using assms by (simp add: rev_map [symmetric])
  moreover have "(uids mg ! i, S mg ! i) \<in> set ?ps"
    using assms by (auto simp: set_zip)
  ultimately have "map_of ?ps (uids mg ! i) = Some (S mg ! i)"
    by (simp only: map_of_eq_Some_iff)
  then show ?thesis
    by (simp add: dict_get_def map_of_py_dict_Nil)
qed

lemma stake_absent:
  assumes "uid \<notin> set (take (length (S mg)) (uids mg))"
  shows "dict_get (py_dict (zip (uids mg) (S mg)) []) uid 0 = 0"
proof -
  have "fst ` set (zip (uids mg) (S mg)) = set (take (length (S mg)) (uids mg))"
    by (metis list.set_map map_fst_zip_take min.commute take_all_iff take_take min_def linear)
  then have "map_of (rev (zip (uids mg) (S mg))) uid = None"
    using assms by (simp add: map_of_eq_None_iff)
  then show ?thesis
    by (simp add: dict_get_def map_of_py_dict_Nil)
qed

lemma peers_three:
  "peers (update_peers_with_buckets
            \<lparr>hotkeys = hs, uids = [1, 2, 3], S = [500, 20000, 9999]\<rparr>
            (st\<lparr>commitments := [(1, r1), (2, r2), (3, r3)]\<rparr>)) = [1, 3]"
  by (simp add: update_peers_with_buckets_def dict_get_def)

text \<open>
  Claim C5. A slot is in the peers after \<open>update_peers_with_buckets\<close> exactly when it is
  a key of the commitments and its stake, as \<open>uid_to_stake.get(uid, 0)\<close> reads it, is at
  most 10000; for a slot listed in a metagraph with distinct UIDs that stake is its entry
  of \<open>S\<close>. With the commitments of the slots 1, 2 and 3 and the stakes 500, 20000 and
  9999 the peers are, as a set, 1 and 3.
\<close>

theorem peers_classification:
  "(uid \<in> set (peers (update_peers_with_buckets mg st)) \<longleftrightarrow>
      uid \<in> fst ` set (commitments st) \<and>
      dict_get (py_dict (zip (uids mg) (S mg)) []) uid 0 \<le> 10000) \<and>
   (distinct (uids mg) \<and> length (S mg) = length (uids mg) \<and> i < length (uids mg) \<longrightarrow>
      (uids mg ! i \<in> set (peers (update_peers_with_buckets mg st)) \<longleftrightarrow>
         uids mg ! i \<in> fst ` set (commitments st) \<and> S mg ! i \<le> 10000)) \<and>
   set (peers (update_peers_with_buckets
                 \<lparr>hotkeys = hs, uids = [1, 2, 3], S = [500, 20000, 9999]\<rparr>
                 (st\<lparr>commitments := [(1, r1), (2, r2), (3, r3)]\<rparr>))) = {1, 3}"
proof -
  have general: "uid \<in> set (peers (update_peers_with_buckets mg st)) \<longleftrightarrow>
      uid \<in> fst ` set (commitments st) \<and>
      dict_get (py_dict (zip (uids mg) (S mg)) []) uid 0 \<le> 10000" for uid
    by (simp add: peers_set)
  have table: "distinct (uids mg) \<and> length (S mg) = length (uids mg) \<and> i < length (uids mg) \<longrightarrow>
      (uids mg ! i \<in> set (peers (update_peers_with_buckets mg st)) \<longleftrightarrow>
         uids mg ! i \<in> fst ` set (commitments st) \<and> S mg ! i \<le> 10000)"
    using stake_lookup [of mg i] by (simp add: general)
  have scenario: "set (peers (update_peers_with_buckets
                 \<lparr>hotkeys = hs, uids = [1, 2, 3], S = [500, 20000, 9999]\<rparr>
                 (st\<lparr>commitments := [(1, r1), (2, r2), (3, r3)]\<rparr>))) = {1, 3}"
    unfolding peers_three by simp
  show ?thesis
    by (intro conjI) (fact general, fact table, fact scenario)
qed

theorem peers_classification_witness:
  "distinct (uids three_neurons) \<and> length (S three_neurons) = length (uids three_neurons) \<and>
   (1::nat) < length (uids three_neurons) \<and>
   uids three_neurons ! 1 = 2 \<and> S three_neurons ! 1 = 20000 \<and>
   2 \<in> fst ` set (commitments known_state) \<and>
   2 \<notin> set (peers (update_peers_with_buckets three_neurons known_state))"
proof -
  have a: "distinct (uids three_neurons)"
    and b: "length (S three_neurons) = length (uids three_neurons)"
    and c: "(1::nat) < length (uids three_neurons)"
    and d: "uids three_neurons ! 1 = 2" and e: "S three_neurons ! 1 = 20000"
    by (simp_all add: three_neurons_def)
  have f: "2 \<in> fst ` set (commitments known_state)"
    by (simp add: known_state_def)
  have "uids three_neurons ! 1 \<in> set (peers (update_peers_with_buckets three_neurons known_state))
      \<longleftrightarrow> uids three_neurons ! 1 \<in> fst ` set (commitments known_state) \<and>
           S three_neurons ! 1 \<le> 10000"
    using peers_classification [of _ three_neurons known_state 1] a b c by blast
  then have "2 \<in> set (peers (update_peers_with_buckets three_neurons known_state))
      \<longleftrightarrow> 2 \<in> fst ` set (commitments known_state) \<and> (20000::real) \<le> 10000"
    by (simp only: d e)
  then have g: "2 \<notin> set (peers (update_peers_with_buckets three_neurons known_state))"
    by simp
  show ?thesis
    by (intro conjI) (fact a, fact b, fact c, fact d, fact e, fact f, fact g)
qed

text \<open>
  Claim C10. A slot that is a key of the commitments and has no entry in the stake table
  (the UIDs paired with a stake by \<open>zip\<close>) is read with stake 0 and is a peer.
\<close>

theorem absent_stake_is_zero:
  assumes "uid \<in> fst ` set (commitments st)"
    and "uid \<notin> set (take (length (S mg)) (uids mg))"
  shows "dict_get (py_dict (zip (uids mg) (S mg)) []) uid 0 = 0 \<and>
         uid \<in> set (peers (update_peers_with_buckets mg st))"
  using assms stake_absent [of uid mg] by (simp add: peers_set)

theorem absent_stake_is_zero_witness:
  "7 \<in> fst ` set (commitments known_state) \<and>
   7 \<notin> set (take (length (S three_neurons)) (uids three_neurons)) \<and>
   7 \<in> set (peers (update_peers_with_buckets three_neurons known_state))"
proof -
  have a: "7 \<in> fst ` set (commitments known_state)"
    by (simp add: known_state_def)
  have b: "7 \<notin> set (take (length (S three_neurons)) (uids three_neurons))"
    by (simp add: three_neurons_def)
  have c: "7 \<in> set (peers (update_peers_with_buckets three_neurons known_state))"
    using absent_stake_is_zero [OF a b] by (rule conjunct2)
  show ?thesis
    by (intro conjI) (fact a, fact b, fact c)
qed

end
